theory Spec2Isabelle
  imports Complex_Main "HOL-Library.Log_Nat" "HOL-Library.Word"
begin

unbundle bit_operations_syntax

section \<open>float64 arithmetic\<close>

text \<open>
  A finite float64 is modelled as the rational number it denotes. Every arithmetic
  operation computes the exact rational result and rounds it to the nearest value with a
  53-bit significand, ties to even, as IEEE 754 binary64 does; below \<open>2 powi - 1022\<close> the
  spacing stays that of the subnormal numbers. Signed zero is not distinguished
  (\<open>-0 = 0\<close>, as for Go's \<open>==\<close>). Overflow to infinity is not modelled: the only product
  of the program that can overflow is converted to \<open>int\<close> at once, and that conversion
  treats every value outside the range of \<open>int\<close> alike. A division by zero has no finite
  result and is an explicit \<open>NotFinite\<close> outcome. Multiplications and additions are
  rounded one by one (no fused multiply-add), as on amd64.
\<close>

definition rne :: "rat \<Rightarrow> int" where
  "rne y = (let n = \<lfloor>y\<rfloor>; r = y - of_int n in
     if r < 1 / 2 then n else if 1 / 2 < r then n + 1 else if even n then n else n + 1)"

text \<open>\<open>ilog2 x\<close> is the binary exponent of a positive \<open>x\<close>: \<open>2 powi e \<le> x < 2 powi (e + 1)\<close>.\<close>

definition ilog2 :: "rat \<Rightarrow> int" where
  "ilog2 x = (if 1 \<le> x then bitlen \<lfloor>x\<rfloor> - 1
              else let m = \<lfloor>1 / x\<rfloor>; j = bitlen m - 1 in
                   if 1 / x = of_int (2 ^ nat j) then - j else - j - 1)"

definition f64_ulp :: "rat \<Rightarrow> rat" where
  "f64_ulp x = 2 powi (max (ilog2 \<bar>x\<bar>) (- 1022) - 52)"

definition f64_round :: "rat \<Rightarrow> rat" where
  "f64_round x = (if x = 0 then 0 else of_int (rne (x / f64_ulp x)) * f64_ulp x)"

definition f64_add :: "rat \<Rightarrow> rat \<Rightarrow> rat" where
  "f64_add a b = f64_round (a + b)"

definition f64_mul :: "rat \<Rightarrow> rat \<Rightarrow> rat" where
  "f64_mul a b = f64_round (a * b)"

text \<open>Division by a divisor known to be non-zero (a constant of the source).\<close>

definition f64_quot :: "rat \<Rightarrow> rat \<Rightarrow> rat" where
  "f64_quot a b = f64_round (a / b)"

datatype strconv_error = ErrSyntax | ErrRange

datatype error =
    UnknownCharset string
  | InvalidResize string
  | NumError string strconv_error
  | IndexOutOfRange int nat
  | NotFinite
  | HugeDimensions

definition f64_div :: "rat \<Rightarrow> rat \<Rightarrow> error + rat" where
  "f64_div a b = (if b = 0 then Inl NotFinite else Inr (f64_quot a b))"

text \<open>\<open>float64(n)\<close> for an integer \<open>n\<close>.\<close>

definition int_to_f64 :: "int \<Rightarrow> rat" where
  "int_to_f64 n = f64_round (of_int n)"

text \<open>
  \<open>int(f)\<close> for a float64 \<open>f\<close>, with \<open>int\<close> of 64 bits: the fraction is discarded
  (truncation towards zero). For a value that \<open>int\<close> cannot represent Go leaves the result
  to the implementation; amd64 yields the least \<open>int\<close>.
\<close>

definition f64_to_int :: "rat \<Rightarrow> int" where
  "f64_to_int f = (let t = (if 0 \<le> f then \<lfloor>f\<rfloor> else \<lceil>f\<rceil>) in
     if - (2 ^ 63) \<le> t \<and> t < 2 ^ 63 then t else - (2 ^ 63))"

section \<open>Colour samples and images\<close>

text \<open>
  The method \<open>RGBA()\<close> of \<open>color.Color\<close> returns four \<open>uint32\<close> channels, alpha-premultiplied
  and each within \<open>[0, 0xffff]\<close> by the contract of that interface. A colour is either a
  \<open>color.NRGBA\<close>, four bytes that are not premultiplied, or a colour of another type, which
  the program only ever observes through its \<open>RGBA()\<close> result.
\<close>

record rgba =
  cR :: "32 word"
  cG :: "32 word"
  cB :: "32 word"
  cA :: "32 word"

datatype color =
    NRGBA "8 word" "8 word" "8 word" "8 word"
  | OtherColor rgba

text \<open>
  \<open>color.NRGBA.RGBA()\<close>: each channel \<open>v\<close> is widened to 16 bits (\<open>v |= v << 8\<close>), and the
  colour channels are multiplied by the alpha byte and divided by \<open>0xff\<close>.
\<close>

definition widen8 :: "8 word \<Rightarrow> 32 word" where
  "widen8 v = (let x = ucast v in x OR push_bit 8 x)"

definition premultiply :: "8 word \<Rightarrow> 8 word \<Rightarrow> 32 word" where
  "premultiply v a = (widen8 v * ucast a) div 0xff"

fun color_RGBA :: "color \<Rightarrow> rgba" where
  "color_RGBA (NRGBA r g b a) =
     \<lparr>cR = premultiply r a, cG = premultiply g a, cB = premultiply b a, cA = widen8 a\<rparr>"
| "color_RGBA (OtherColor s) = s"

definition valid_color :: "color \<Rightarrow> bool" where
  "valid_color c = (cR (color_RGBA c) \<le> 0xffff \<and> cG (color_RGBA c) \<le> 0xffff \<and>
                    cB (color_RGBA c) \<le> 0xffff \<and> cA (color_RGBA c) \<le> 0xffff)"

text \<open>
  \<open>color.NRGBAModel.Convert\<close>: a \<open>color.NRGBA\<close> is kept; any other colour is converted from
  its \<open>RGBA()\<close> result, undoing the premultiplication and keeping the high byte of each
  channel.
\<close>

definition high_byte :: "32 word \<Rightarrow> 8 word" where
  "high_byte v = ucast (drop_bit 8 v)"

fun nrgbaModel :: "color \<Rightarrow> color" where
  "nrgbaModel (NRGBA r g b a) = NRGBA r g b a"
| "nrgbaModel (OtherColor s) =
     (if cA s = 0xffff then NRGBA (high_byte (cR s)) (high_byte (cG s)) (high_byte (cB s)) 0xff
      else if cA s = 0 then NRGBA 0 0 0 0
      else NRGBA (high_byte ((cR s * 0xffff) div cA s)) (high_byte ((cG s * 0xffff) div cA s))
                 (high_byte ((cB s * 0xffff) div cA s)) (high_byte (cA s)))"

text \<open>
  An image is a bounding rectangle and a field of samples. \<open>image.Rect\<close> swaps the corners
  where needed; \<open>Dx\<close>, \<open>Dy\<close> and \<open>Size\<close> subtract in \<open>int\<close>, of 64 bits, and wrap around.
  \<open>At\<close> outside the rectangle gives the zero sample and \<open>Set\<close> outside it does nothing;
  \<open>Set\<close> of an \<open>*image.NRGBA\<close> stores the sample converted by \<open>nrgbaModel\<close>.
\<close>

type_synonym point = "int \<times> int"

record rectangle =
  rMin :: point
  rMax :: point

definition Rect :: "int \<Rightarrow> int \<Rightarrow> int \<Rightarrow> int \<Rightarrow> rectangle" where
  "Rect x0 y0 x1 y1 =
     \<lparr>rMin = (if x0 > x1 then x1 else x0, if y0 > y1 then y1 else y0),
      rMax = (if x0 > x1 then x0 else x1, if y0 > y1 then y0 else y1)\<rparr>"

definition wrap64 :: "int \<Rightarrow> int" where
  "wrap64 n = (n + 2 ^ 63) mod 2 ^ 64 - 2 ^ 63"

definition rect_Dx :: "rectangle \<Rightarrow> int" where
  "rect_Dx r = wrap64 (fst (rMax r) - fst (rMin r))"

definition rect_Dy :: "rectangle \<Rightarrow> int" where
  "rect_Dy r = wrap64 (snd (rMax r) - snd (rMin r))"

definition rect_Size :: "rectangle \<Rightarrow> point" where
  "rect_Size r = (rect_Dx r, rect_Dy r)"

definition point_In :: "point \<Rightarrow> rectangle \<Rightarrow> bool" where
  "point_In p r = (fst (rMin r) \<le> fst p \<and> fst p < fst (rMax r) \<and>
                   snd (rMin r) \<le> snd p \<and> snd p < snd (rMax r))"

record image =
  Bounds :: rectangle
  pix :: "point \<Rightarrow> color"

definition zero_color :: color where
  "zero_color = NRGBA 0 0 0 0"

definition image_At :: "image \<Rightarrow> int \<Rightarrow> int \<Rightarrow> color" where
  "image_At img x y = (if point_In (x, y) (Bounds img) then pix img (x, y) else zero_color)"

definition image_Set :: "image \<Rightarrow> int \<Rightarrow> int \<Rightarrow> color \<Rightarrow> image" where
  "image_Set img x y c =
     (if point_In (x, y) (Bounds img) then img\<lparr>pix := (pix img)((x, y) := nrgbaModel c)\<rparr>
      else img)"

text \<open>
  \<open>image.NewNRGBA\<close> computes the length of the pixel buffer, \<open>4 * Dx * Dy\<close>, with
  \<open>mul3NonNeg\<close>, which gives \<open>- 1\<close> when a factor is negative or a product overflows, and
  panics (the rectangle has huge or negative dimensions) on \<open>- 1\<close>. Running out of memory
  for a buffer whose length fits \<open>int\<close> is not modelled.
\<close>

definition mul3NonNeg :: "int \<Rightarrow> int \<Rightarrow> int \<Rightarrow> int" where
  "mul3NonNeg x y z =
     (if x < 0 \<or> y < 0 \<or> z < 0 then - 1
      else if 2 ^ 64 \<le> x * y then - 1
      else if 2 ^ 64 \<le> x * y * z then - 1
      else if 2 ^ 63 \<le> x * y * z then - 1
      else x * y * z)"

definition NewNRGBA :: "rectangle \<Rightarrow> error + image" where
  "NewNRGBA r =
     (if mul3NonNeg 4 (rect_Dx r) (rect_Dy r) < 0 then Inl HugeDimensions
      else Inr \<lparr>Bounds = r, pix = (\<lambda>p. zero_color)\<rparr>)"

section \<open>The program\<close>

text \<open>The character-set registry: one ramp of 69 characters, named \<open>ascii\<close>.\<close>

definition ascii_ramp :: string where
  "ascii_ramp = ''.'' @ [CHR 0x27, CHR 0x60] @ ''^'' @ [CHR 0x22] @ '',:;Il!i><~+_-?][}{1)(|''
     @ [CHR 0x5C] @ ''/tfjrxnuvczXYUJCLQ0OZmwqpdbkhao*#MW&8%B@$''"

definition ChararacterSets :: "string \<Rightarrow> string option" where
  "ChararacterSets = [''ascii'' \<mapsto> ascii_ramp]"

text \<open>The scale factor is a finite float64 (0 when the flag is absent).\<close>

record Options =
  Verbose :: bool
  Output :: string
  Resize :: string
  Charset :: string
  Scale :: rat

subsection \<open>luminance\<close>

definition normalized :: "32 word \<Rightarrow> rat" where
  "normalized v = f64_quot (int_to_f64 (uint v)) 65535"

definition luminance :: "color \<Rightarrow> rat" where
  "luminance c =
     (let s = color_RGBA c;
          red = normalized (cR s); green = normalized (cG s); blue = normalized (cB s) in
      f64_add (f64_add (f64_mul (f64_round (299 / 1000)) red)
                       (f64_mul (f64_round (587 / 1000)) green))
              (f64_mul (f64_round (114 / 1000)) blue))"

subsection \<open>resize\<close>

text \<open>A counting loop \<open>for i := 0; i < n; i++\<close> whose body may fail.\<close>

primrec fold_err :: "('a \<Rightarrow> 's \<Rightarrow> error + 's) \<Rightarrow> 'a list \<Rightarrow> 's \<Rightarrow> error + 's" where
  "fold_err f [] s = Inr s"
| "fold_err f (x # xs) s = (case f x s of Inl e \<Rightarrow> Inl e | Inr s' \<Rightarrow> fold_err f xs s')"

definition for_range :: "int \<Rightarrow> (int \<Rightarrow> 's \<Rightarrow> error + 's) \<Rightarrow> 's \<Rightarrow> error + 's" where
  "for_range n body s = fold_err body [0..n - 1] s"

text \<open>\<open>int((float64(x) / float64(width)) * float64(X))\<close>\<close>

definition src_coord :: "int \<Rightarrow> int \<Rightarrow> int \<Rightarrow> error + int" where
  "src_coord x width X =
     (case f64_div (int_to_f64 x) (int_to_f64 width) of
        Inl e \<Rightarrow> Inl e
      | Inr q \<Rightarrow> Inr (f64_to_int (f64_mul q (int_to_f64 X))))"

definition resize_pixel :: "image \<Rightarrow> int \<Rightarrow> int \<Rightarrow> int \<Rightarrow> int \<Rightarrow> image \<Rightarrow> error + image" where
  "resize_pixel img width height x y output =
     (case src_coord x width (fst (rect_Size (Bounds img))) of
        Inl e \<Rightarrow> Inl e
      | Inr ix \<Rightarrow>
         (case src_coord y height (snd (rect_Size (Bounds img))) of
            Inl e \<Rightarrow> Inl e
          | Inr iy \<Rightarrow> Inr (image_Set output x y (image_At img ix iy))))"

definition resize :: "image \<Rightarrow> int \<Rightarrow> int \<Rightarrow> error + image" where
  "resize img width height =
     (case NewNRGBA (Rect 0 0 width height) of
        Inl e \<Rightarrow> Inl e
      | Inr output \<Rightarrow>
          for_range width
            (\<lambda>x. for_range height (\<lambda>y. resize_pixel img width height x y)) output)"

subsection \<open>parseResize\<close>

text \<open>
  \<open>strings.SplitN(s, sep, 2)\<close> for a separator of one byte: the text before the first
  separator and the text after it, or the whole string when there is none.
\<close>

fun cut_first :: "char \<Rightarrow> string \<Rightarrow> (string \<times> string) option" where
  "cut_first c [] = None"
| "cut_first c (d # ds) =
     (if d = c then Some ([], ds)
      else (case cut_first c ds of None \<Rightarrow> None | Some (a, b) \<Rightarrow> Some (d # a, b)))"

definition SplitN2 :: "string \<Rightarrow> char \<Rightarrow> string list" where
  "SplitN2 s c = (case cut_first c s of None \<Rightarrow> [s] | Some (a, b) \<Rightarrow> [a, b])"

text \<open>
  \<open>strconv.ParseUint(s, 10, 32)\<close>: a non-empty string of decimal digits whose value fits
  32 bits; no sign, no underscore.
\<close>

definition is_digit :: "char \<Rightarrow> bool" where
  "is_digit c = (of_char CHR ''0'' \<le> (of_char c :: int) \<and> (of_char c :: int) \<le> of_char CHR ''9'')"

fun parse_digits :: "int \<Rightarrow> string \<Rightarrow> strconv_error + int" where
  "parse_digits n [] = Inr n"
| "parse_digits n (c # cs) =
     (if is_digit c then
        (let n1 = n * 10 + (of_char c - of_char CHR ''0'') in
         if n1 > 2 ^ 32 - 1 then Inl ErrRange else parse_digits n1 cs)
      else Inl ErrSyntax)"

definition ParseUint :: "string \<Rightarrow> strconv_error + int" where
  "ParseUint s = (if s = [] then Inl ErrSyntax else parse_digits 0 s)"

definition parseResize :: "string \<Rightarrow> image \<Rightarrow> error + (int \<times> int)" where
  "parseResize value img =
     (if length value < 1 then Inr (rect_Size (Bounds img))
      else let split = SplitN2 value CHR ''x'' in
        if length split < 2 then Inl (InvalidResize value)
        else (case ParseUint (split ! 0) of
                Inl err \<Rightarrow> Inl (NumError (split ! 0) err)
              | Inr width \<Rightarrow>
                 (case ParseUint (split ! 1) of
                    Inl err \<Rightarrow> Inl (NumError (split ! 1) err)
                  | Inr height \<Rightarrow> Inr (width, height))))"

subsection \<open>main\<close>

text \<open>The target size: the resize option first, then the scale factor when it is not zero.\<close>

definition target_dims :: "Options \<Rightarrow> image \<Rightarrow> error + (int \<times> int)" where
  "target_dims opts img =
     (case parseResize (Resize opts) img of
        Inl err \<Rightarrow> Inl err
      | Inr (ow, oh) \<Rightarrow>
          if Scale opts \<noteq> 0 then
            (let size = rect_Size (Bounds img) in
             Inr (f64_to_int (f64_mul (int_to_f64 (fst size)) (Scale opts)),
                  f64_to_int (f64_mul (int_to_f64 (snd size)) (Scale opts))))
          else Inr (ow, oh))"

text \<open>
  \<open>charset[int(float64(len(charset)) * lum)]\<close>: an index outside the string is a run-time
  panic.
\<close>

definition glyph_index :: "nat \<Rightarrow> rat \<Rightarrow> int" where
  "glyph_index n lum = f64_to_int (f64_mul (int_to_f64 (int n)) lum)"

definition glyph :: "string \<Rightarrow> rat \<Rightarrow> error + char" where
  "glyph charset lum =
     (let i = glyph_index (length charset) lum in
      if 0 \<le> i \<and> i < int (length charset) then Inr (charset ! nat i)
      else Inl (IndexOutOfRange i (length charset)))"

text \<open>
  The text is modelled as its sequence of characters: \<open>Sprintf("%c", b)\<close> writes the one
  character whose code point is the byte \<open>b\<close>.
\<close>

definition render_pixel :: "string \<Rightarrow> image \<Rightarrow> int \<Rightarrow> int \<Rightarrow> string \<Rightarrow> error + string" where
  "render_pixel charset img y x result =
     (case glyph charset (luminance (image_At img x y)) of
        Inl e \<Rightarrow> Inl e
      | Inr char \<Rightarrow> Inr (result @ [char]))"

definition render_row :: "string \<Rightarrow> image \<Rightarrow> int \<Rightarrow> int \<Rightarrow> int \<Rightarrow> string \<Rightarrow> error + string" where
  "render_row charset img ow oh y result =
     (case for_range ow (render_pixel charset img y) result of
        Inl e \<Rightarrow> Inl e
      | Inr result' \<Rightarrow> Inr (if y + 1 \<noteq> oh then result' @ [CHR 0x0A] else result'))"

definition render :: "string \<Rightarrow> image \<Rightarrow> int \<Rightarrow> int \<Rightarrow> error + string" where
  "render charset img ow oh = for_range oh (render_row charset img ow oh) []"

text \<open>
  The pipeline of \<open>main\<close> from the decoded image to the text handed to the output sink.
\<close>

definition asciify :: "Options \<Rightarrow> image \<Rightarrow> error + string" where
  "asciify opts img =
     (case ChararacterSets (Charset opts) of
        None \<Rightarrow> Inl (UnknownCharset (Charset opts))
      | Some charset \<Rightarrow>
         (case target_dims opts img of
            Inl err \<Rightarrow> Inl err
          | Inr (ow, oh) \<Rightarrow>
             (case resize img ow oh of
                Inl err \<Rightarrow> Inl err
              | Inr processedImg \<Rightarrow> render charset processedImg ow oh)))"

section \<open>Derived notions used in the statements\<close>

text \<open>
  The source coordinate that \<open>src_coord\<close> computes when the target dimension is not zero,
  the grid that \<open>NewNRGBA\<close> returns when it does not panic, and the grid that the two loops
  of \<open>resize\<close> build from it when no step of them fails.
\<close>

definition blank :: "rectangle \<Rightarrow> image" where
  "blank r = \<lparr>Bounds = r, pix = (\<lambda>p. zero_color)\<rparr>"

text \<open>The length of the pixel buffer of the target grid as \<open>NewNRGBA\<close> computes it, or \<open>- 1\<close>.\<close>

definition buffer_length :: "int \<Rightarrow> int \<Rightarrow> int" where
  "buffer_length width height =
     mul3NonNeg 4 (rect_Dx (Rect 0 0 width height)) (rect_Dy (Rect 0 0 width height))"

definition src_index :: "int \<Rightarrow> int \<Rightarrow> int \<Rightarrow> int" where
  "src_index x width X =
     f64_to_int (f64_mul (f64_quot (int_to_f64 x) (int_to_f64 width)) (int_to_f64 X))"

definition resized :: "image \<Rightarrow> int \<Rightarrow> int \<Rightarrow> image" where
  "resized img width height =
     fold (\<lambda>x. fold (\<lambda>y out. image_Set out x y
         (image_At img (src_index x width (fst (rect_Size (Bounds img))))
                       (src_index y height (snd (rect_Size (Bounds img)))))) [0..height - 1])
       [0..width - 1] (blank (Rect 0 0 width height))"

text \<open>A numeric width or height: a non-empty string of decimal digits.\<close>

definition numeric :: "string \<Rightarrow> bool" where
  "numeric s = (s \<noteq> [] \<and> (\<forall>c \<in> set s. is_digit c))"

text \<open>The character of one sample, and the characters of one row of the grid.\<close>

definition glyph_of :: "string \<Rightarrow> color \<Rightarrow> char" where
  "glyph_of charset c = charset ! nat (glyph_index (length charset) (luminance c))"

definition row_text :: "string \<Rightarrow> image \<Rightarrow> int \<Rightarrow> int \<Rightarrow> string" where
  "row_text charset img ow y = map (\<lambda>x. glyph_of charset (image_At img x y)) [0..ow - 1]"

subsection \<open>Sample inputs\<close>

definition black :: color where
  "black = NRGBA 0 0 0 0xff"

text \<open>White with alpha 0: a fully transparent sample.\<close>

definition transparent_white :: color where
  "transparent_white = NRGBA 0xff 0xff 0xff 0"

definition white :: color where
  "white = NRGBA 0xff 0xff 0xff 0xff"

text \<open>An image of one colour, and an image of opaque \<open>color.NRGBA\<close> samples whose sample
  at \<open>(x, y)\<close> has the byte \<open>x\<close> in each colour channel.\<close>

definition img_const :: "int \<Rightarrow> int \<Rightarrow> color \<Rightarrow> image" where
  "img_const w h c = \<lparr>Bounds = Rect 0 0 w h, pix = (\<lambda>p. c)\<rparr>"

definition gradient :: "int \<Rightarrow> int \<Rightarrow> image" where
  "gradient w h = \<lparr>Bounds = Rect 0 0 w h,
     pix = (\<lambda>p. NRGBA (word_of_int (fst p)) (word_of_int (fst p)) (word_of_int (fst p)) 0xff)\<rparr>"

text \<open>The options when no flag is given.\<close>

definition default_opts :: Options where
  "default_opts = \<lparr>Verbose = False, Output = [], Resize = [], Charset = ''ascii'', Scale = 0\<rparr>"

section \<open>Rounding to float64\<close>

lemma rne_floor_le: "\<lfloor>y\<rfloor> \<le> rne y" by (simp add: rne_def Let_def)

lemma rne_le_floor1: "rne y \<le> \<lfloor>y\<rfloor> + 1" by (simp add: rne_def Let_def)

lemma rne_of_int [simp]: "rne (of_int n) = n" by (simp add: rne_def Let_def)

lemma rne_le_int: "y \<le> of_int k \<Longrightarrow> rne y \<le> k"
  unfolding rne_def Let_def by (auto; linarith)

lemma rne_ge_int: "of_int k \<le> y \<Longrightarrow> k \<le> rne y"
  unfolding rne_def Let_def by (auto; linarith)

lemma rne_mono: "a \<le> b \<Longrightarrow> rne a \<le> rne b"
proof (cases "\<lfloor>a\<rfloor> = \<lfloor>b\<rfloor>")
  case True
  assume "a \<le> b"
  then show ?thesis using True unfolding rne_def Let_def by auto
next
  case False
  assume "a \<le> b"
  then have "\<lfloor>a\<rfloor> + 1 \<le> \<lfloor>b\<rfloor>" using False floor_mono[of a b] by linarith
  then show ?thesis using rne_le_floor1[of a] rne_floor_le[of b] by linarith
qed

lemma rne_err: "\<bar>of_int (rne y) - y\<bar> \<le> 1/2"
proof -
  have "of_int \<lfloor>y\<rfloor> \<le> y" "y < of_int \<lfloor>y\<rfloor> + 1" by linarith+
  then show ?thesis unfolding rne_def Let_def by (auto simp: abs_if; linarith)
qed

lemma powi2_succ: "(2::rat) powi (k + 1) = 2 * 2 powi k"
  by (simp add: power_int_add)

lemma powi2_pred: "(2::rat) powi (k - 1) = 2 powi k / 2"
  by (simp add: power_int_diff)

lemma powi2_neg: "0 \<le> k \<Longrightarrow> (2::rat) powi (- k) = 1 / 2 ^ nat k"
  by (simp add: power_int_minus power_int_def field_simps)

lemma powi2_pos [simp]: "(0::rat) < 2 powi k"
  by (simp add: zero_less_power_int)

lemma ilog2_ge1:
  assumes "1 \<le> x"
  shows "2 powi (ilog2 x) \<le> x \<and> x < 2 powi (ilog2 x + 1)"
proof -
  let ?m = "\<lfloor>x\<rfloor>"
  have m: "0 < ?m" using assms by simp
  from bitlen_bounds[OF m] have b1: "2 ^ nat (bitlen ?m - 1) \<le> ?m" and b2: "?m < 2 ^ nat (bitlen ?m)" by auto
  have bl: "1 \<le> bitlen ?m" using m bitlen_eq_zero_iff[of ?m] bitlen_nonneg[of ?m] by linarith
  have e: "ilog2 x = bitlen ?m - 1" using assms by (simp add: ilog2_def)
  have "(2::rat) powi (bitlen ?m - 1) = of_int (2 ^ nat (bitlen ?m - 1))"
    using bl by (simp add: power_int_def)
  also have "\<dots> \<le> of_int ?m" using b1 by (simp only: of_int_le_iff)
  also have "\<dots> \<le> x" by simp
  finally have lo: "2 powi (ilog2 x) \<le> x" by (simp add: e)
  have "?m + 1 \<le> 2 ^ nat (bitlen ?m)" using b2 by simp
  then have "(of_int (?m + 1)::rat) \<le> of_int (2 ^ nat (bitlen ?m))" by (simp only: of_int_le_iff)
  moreover have "x < of_int (?m + 1)" by simp linarith
  moreover have "(of_int (2 ^ nat (bitlen ?m))::rat) = 2 powi (bitlen ?m)" using bl by (simp add: power_int_def)
  ultimately have "x < 2 powi (ilog2 x + 1)" by (simp add: e)
  with lo show ?thesis by simp
qed

lemma ilog2_lt1:
  assumes "0 < x" "x < 1"
  shows "2 powi (ilog2 x) \<le> x \<and> x < 2 powi (ilog2 x + 1)"
proof -
  let ?y = "1 / x"
  let ?m = "\<lfloor>?y\<rfloor>"
  let ?j = "bitlen ?m - 1"
  have y1: "1 < ?y" using assms by simp
  have m: "0 < ?m" using y1 by simp
  from bitlen_bounds[OF m] have b1: "2 ^ nat ?j \<le> ?m" and b2: "?m < 2 ^ nat (bitlen ?m)" by auto
  have bl: "0 \<le> ?j" using m bitlen_eq_zero_iff[of ?m] bitlen_nonneg[of ?m] by linarith
  have "(of_int (2 ^ nat ?j)::rat) \<le> of_int ?m" using b1 by (simp only: of_int_le_iff)
  also have "\<dots> \<le> ?y" by simp
  finally have ylo: "(2::rat) ^ nat ?j \<le> ?y" by simp
  have "?m + 1 \<le> 2 ^ nat (bitlen ?m)" using b2 by simp
  then have "(of_int (?m + 1)::rat) \<le> of_int (2 ^ nat (bitlen ?m))" by (simp only: of_int_le_iff)
  moreover have "?y < of_int (?m + 1)" by simp linarith
  moreover have "nat (bitlen ?m) = Suc (nat ?j)" using bl by simp
  ultimately have yhi: "?y < 2 * 2 ^ nat ?j" by simp
  have p: "(0::rat) < 2 ^ nat ?j" by simp
  show ?thesis
  proof (cases "?y = of_int (2 ^ nat ?j)")
    case True
    then have e: "ilog2 x = - ?j" using assms by (simp add: ilog2_def Let_def)
    have x: "x = 1 / 2 ^ nat ?j" using True assms by (simp add: field_simps)
    have "(2::rat) powi (- ?j) = 1 / 2 ^ nat ?j" using bl by (rule powi2_neg)
    then show ?thesis using x p assms(1) unfolding e powi2_succ by simp
  next
    case False
    then have e: "ilog2 x = - ?j - 1" using assms by (simp add: ilog2_def Let_def)
    have ylo': "(2::rat) ^ nat ?j < ?y" using ylo False by simp
    have a: "(2::rat) powi (- ?j - 1) = 1 / (2 * 2 ^ nat ?j)"
      unfolding powi2_pred powi2_neg[OF bl] by simp
    have b: "(2::rat) powi (- ?j - 1 + 1) = 1 / 2 ^ nat ?j" using powi2_neg[OF bl] by simp
    have "1 / (2 * 2 ^ nat ?j) < x" using yhi assms p by (simp add: field_simps)
    moreover have "x < 1 / 2 ^ nat ?j" using ylo' assms p by (simp add: field_simps)
    ultimately show ?thesis unfolding e a b by simp
  qed
qed

lemma ilog2_bounds:
  assumes "0 < x"
  shows "2 powi (ilog2 x) \<le> x" and "x < 2 powi (ilog2 x + 1)"
  using ilog2_ge1[of x] ilog2_lt1[of x] assms by (cases "1 \<le> x"; simp)+

lemma powi2_mono: "a \<le> b \<Longrightarrow> (2::rat) powi a \<le> 2 powi b"
  by (rule power_int_increasing) simp_all

lemma powi2_less_cancel: "(2::rat) powi a < 2 powi b \<Longrightarrow> a < b"
  using powi2_mono[of b a] by (cases "a < b") auto

lemma ilog2_mono:
  assumes "0 < x" "x \<le> y"
  shows "ilog2 x \<le> ilog2 y"
proof -
  have "2 powi (ilog2 x) \<le> x" using ilog2_bounds(1)[OF assms(1)] .
  also have "x \<le> y" by fact
  also have "y < 2 powi (ilog2 y + 1)" using ilog2_bounds(2)[of y] assms by simp
  finally have "(2::rat) powi (ilog2 x) < 2 powi (ilog2 y + 1)" .
  then have "ilog2 x < ilog2 y + 1" by (rule powi2_less_cancel)
  then show ?thesis by simp
qed

lemma ilog2_ge: "0 < x \<Longrightarrow> 2 powi k \<le> x \<Longrightarrow> k \<le> ilog2 x"
proof -
  assume a: "0 < x" "2 powi k \<le> x"
  have "(2::rat) powi k < 2 powi (ilog2 x + 1)" using a ilog2_bounds(2)[of x] by simp
  then have "k < ilog2 x + 1" by (rule powi2_less_cancel)
  then show ?thesis by simp
qed

lemma ilog2_lt: "0 < x \<Longrightarrow> x < 2 powi k \<Longrightarrow> ilog2 x < k"
proof -
  assume a: "0 < x" "x < 2 powi k"
  have "(2::rat) powi (ilog2 x) < 2 powi k" using a ilog2_bounds(1)[of x] by simp
  then show ?thesis by (rule powi2_less_cancel)
qed

lemma f64_ulp_pos [simp]: "0 < f64_ulp x"
  by (simp add: f64_ulp_def)

lemma f64_ulp_nonneg [simp]: "0 \<le> f64_ulp x"
  using f64_ulp_pos[of x] by (rule less_imp_le)

lemma f64_ulp_neq0 [simp]: "f64_ulp x \<noteq> 0"
  by (simp add: f64_ulp_def)

lemma f64_round_0 [simp]: "f64_round 0 = 0"
  by (simp add: f64_round_def)

lemma f64_round_nonneg: "0 \<le> x \<Longrightarrow> 0 \<le> f64_round x"
proof -
  assume "0 \<le> x"
  then have "0 \<le> x / f64_ulp x" by simp
  then have "0 \<le> rne (x / f64_ulp x)" using rne_ge_int[of 0] by simp
  then show ?thesis by (simp add: f64_round_def)
qed

lemma f64_round_nonpos: "x \<le> 0 \<Longrightarrow> f64_round x \<le> 0"
proof -
  assume "x \<le> 0"
  then have "x / f64_ulp x \<le> 0" by (simp add: divide_nonpos_pos)
  then have "rne (x / f64_ulp x) \<le> 0" using rne_le_int[of _ 0] by simp
  then show ?thesis by (simp add: f64_round_def mult_le_0_iff)
qed

lemma f64_round_err: "\<bar>f64_round x - x\<bar> \<le> f64_ulp x / 2"
proof (cases "x = 0")
  case True then show ?thesis by simp
next
  case False
  let ?q = "f64_ulp x"
  have "f64_round x - x = (of_int (rne (x / ?q)) - x / ?q) * ?q"
    using False by (simp add: f64_round_def field_simps)
  then have "\<bar>f64_round x - x\<bar> = \<bar>of_int (rne (x / ?q)) - x / ?q\<bar> * ?q"
    by (simp add: abs_mult)
  also have "\<dots> \<le> (1 / 2) * ?q"
    by (rule mult_right_mono[OF rne_err]) simp
  finally show ?thesis by simp
qed

lemma f64_ulp_normal: "0 < x \<Longrightarrow> - 1022 \<le> ilog2 x \<Longrightarrow> f64_ulp x = 2 powi (ilog2 x - 52)"
  by (simp add: f64_ulp_def max_def)

text \<open>Rounding never crosses a multiple of the spacing.\<close>

lemma f64_round_le_mult:
  assumes "x \<le> of_int k * f64_ulp x"
  shows "f64_round x \<le> of_int k * f64_ulp x"
proof (cases "x = 0")
  case True
  then show ?thesis using assms by simp
next
  case False
  have "x / f64_ulp x \<le> of_int k" using assms by (simp add: field_simps)
  then have "rne (x / f64_ulp x) \<le> k" by (rule rne_le_int)
  then have "(of_int (rne (x / f64_ulp x))::rat) \<le> of_int k" by simp
  then show ?thesis using False by (simp add: f64_round_def)
qed

lemma f64_round_ge_mult:
  assumes "of_int k * f64_ulp x \<le> x" "x \<noteq> 0"
  shows "of_int k * f64_ulp x \<le> f64_round x"
proof -
  have "of_int k \<le> x / f64_ulp x" using assms by (simp add: field_simps)
  then have "k \<le> rne (x / f64_ulp x)" by (rule rne_ge_int)
  then have "(of_int k::rat) \<le> of_int (rne (x / f64_ulp x))" by simp
  then show ?thesis using assms(2) by (simp add: f64_round_def)
qed

lemma powi2_of_int: "0 \<le> k \<Longrightarrow> (2::rat) powi k = of_int (2 ^ nat k)"
  by (simp add: power_int_def)

lemma f64_round_le_pow2:
  assumes "0 < x" "x \<le> 2 powi k" "max (ilog2 x) (- 1022) \<le> k + 52"
  shows "f64_round x \<le> 2 powi k"
proof -
  let ?e = "max (ilog2 x) (- 1022)"
  have q: "f64_ulp x = 2 powi (?e - 52)" using assms(1) by (simp add: f64_ulp_def)
  have "(2::rat) powi k = 2 powi ((k - (?e - 52)) + (?e - 52))" by simp
  also have "\<dots> = 2 powi (k - (?e - 52)) * 2 powi (?e - 52)"
    by (rule power_int_add) simp
  also have "(2::rat) powi (k - (?e - 52)) = of_int (2 ^ nat (k - (?e - 52)))"
    by (rule powi2_of_int) (insert assms(3), linarith)
  finally have eq: "(2::rat) powi k = of_int (2 ^ nat (k - (?e - 52))) * f64_ulp x"
    unfolding q .
  show ?thesis using f64_round_le_mult[of x "2 ^ nat (k - (?e - 52))"] assms(2) unfolding eq by simp
qed

lemma f64_round_ge_pow2:
  assumes "0 < x" "- 1022 \<le> ilog2 x"
  shows "2 powi (ilog2 x) \<le> f64_round x"
proof -
  have q: "f64_ulp x = 2 powi (ilog2 x - 52)" using assms by (rule f64_ulp_normal)
  have "(2::rat) powi (ilog2 x) = 2 powi (52 + (ilog2 x - 52))" by simp
  also have "\<dots> = 2 powi 52 * 2 powi (ilog2 x - 52)"
    by (rule power_int_add) simp
  also have "(2::rat) powi 52 = of_int (2 ^ 52)" by (simp add: power_int_def)
  finally have eq: "(2::rat) powi (ilog2 x) = of_int (2 ^ 52) * f64_ulp x" unfolding q .
  show ?thesis
    using f64_round_ge_mult[of "2 ^ 52" x] ilog2_bounds(1)[OF assms(1)] assms(1)
    unfolding eq by simp
qed

lemma f64_round_mono_pos:
  assumes "0 < x" "x \<le> y"
  shows "f64_round x \<le> f64_round y"
proof -
  let ?ex = "max (ilog2 x) (- 1022)" and ?ey = "max (ilog2 y) (- 1022)"
  have y: "0 < y" using assms by simp
  have le: "ilog2 x \<le> ilog2 y" using assms by (rule ilog2_mono)
  have qx: "f64_ulp x = 2 powi (?ex - 52)" using assms(1) by (simp add: f64_ulp_def)
  have qy: "f64_ulp y = 2 powi (?ey - 52)" using y by (simp add: f64_ulp_def)
  show ?thesis
  proof (cases "?ex = ?ey")
    case True
    then have q: "f64_ulp y = f64_ulp x" using qx qy by simp
    have "x / f64_ulp x \<le> y / f64_ulp x" using assms(2) by (simp add: divide_right_mono)
    then have "rne (x / f64_ulp x) \<le> rne (y / f64_ulp x)" by (rule rne_mono)
    then have "(of_int (rne (x / f64_ulp x))::rat) * f64_ulp x \<le> of_int (rne (y / f64_ulp x)) * f64_ulp x"
      by (intro mult_right_mono) simp_all
    then show ?thesis using assms(1) y by (simp add: f64_round_def q)
  next
    case False
    then have lt: "?ex < ?ey" using le by (simp add: max_def split: if_splits)
    then have ey: "?ey = ilog2 y" and n: "- 1022 \<le> ilog2 y" by (simp_all add: max_def split: if_splits)
    have "x < 2 powi (ilog2 x + 1)" using ilog2_bounds(2)[OF assms(1)] .
    also have "\<dots> \<le> 2 powi (ilog2 y)" using lt ey by (intro powi2_mono) simp
    finally have "x \<le> 2 powi (ilog2 y)" by simp
    then have "f64_round x \<le> 2 powi (ilog2 y)"
      using assms(1) lt ey by (intro f64_round_le_pow2) simp_all
    also have "\<dots> \<le> f64_round y" using y n by (rule f64_round_ge_pow2)
    finally show ?thesis .
  qed
qed

lemma f64_round_mono:
  assumes "0 \<le> x" "x \<le> y"
  shows "f64_round x \<le> f64_round y"
proof (cases "x = 0")
  case True
  then show ?thesis using assms f64_round_nonneg[of y] by simp
next
  case False
  then show ?thesis using assms f64_round_mono_pos[of x y] by simp
qed

lemma f64_round_of_int:
  assumes "0 \<le> n" "n < 2 ^ 53"
  shows "f64_round (of_int n) = of_int n"
proof (cases "n = 0")
  case True then show ?thesis by simp
next
  case False
  let ?x = "of_int n :: rat"
  let ?e = "ilog2 ?x"
  have pos: "0 < ?x" using assms False by simp
  have "(2::rat) powi 0 \<le> ?x" using assms False by simp
  then have e0: "0 \<le> ?e" using pos by (intro ilog2_ge)
  have "?x < of_int (2 ^ 53)" using assms(2) by (simp only: of_int_less_iff)
  also have "\<dots> = 2 powi 53" by (simp add: power_int_def)
  finally have e53: "?e < 53" using pos by (intro ilog2_lt)
  have q: "f64_ulp ?x = 2 powi (?e - 52)" using pos e0 by (intro f64_ulp_normal) simp_all
  have "(1::rat) = 2 powi ((52 - ?e) + (?e - 52))" by simp
  also have "\<dots> = 2 powi (52 - ?e) * 2 powi (?e - 52)" by (rule power_int_add) simp
  also have "(2::rat) powi (52 - ?e) = of_int (2 ^ nat (52 - ?e))"
    using e53 by (intro powi2_of_int) simp
  finally have one: "1 = of_int (2 ^ nat (52 - ?e)) * f64_ulp ?x" unfolding q .
  have "?x / f64_ulp ?x = ?x * (of_int (2 ^ nat (52 - ?e)) * f64_ulp ?x) / f64_ulp ?x"
    using one by simp
  also have "\<dots> = of_int (n * 2 ^ nat (52 - ?e))" by simp
  finally have "rne (?x / f64_ulp ?x) = n * 2 ^ nat (52 - ?e)" by (simp only: rne_of_int)
  then have "f64_round ?x = of_int (n * 2 ^ nat (52 - ?e)) * f64_ulp ?x"
    using pos by (simp add: f64_round_def)
  also have "\<dots> = ?x * (of_int (2 ^ nat (52 - ?e)) * f64_ulp ?x)" by simp
  also have "\<dots> = ?x" using one by simp
  finally show ?thesis .
qed

lemma int_to_f64_exact: "0 \<le> n \<Longrightarrow> n < 2 ^ 53 \<Longrightarrow> int_to_f64 n = of_int n"
  unfolding int_to_f64_def by (rule f64_round_of_int)



lemma f64_round_err_rel:
  assumes "0 < x" "- 1022 \<le> ilog2 x"
  shows "\<bar>f64_round x - x\<bar> \<le> x / 2 ^ 53"
proof -
  have "f64_ulp x = 2 powi (ilog2 x + (- 52))" using f64_ulp_normal[OF assms] by simp
  also have "\<dots> = 2 powi (ilog2 x) * 2 powi (- 52)" by (rule power_int_add) simp
  also have "\<dots> \<le> x * 2 powi (- 52)"
    using ilog2_bounds(1)[OF assms(1)] by (intro mult_right_mono) simp_all
  finally have "f64_ulp x / 2 \<le> x / 2 ^ 53" by (simp add: power_int_def field_simps)
  then show ?thesis using f64_round_err[of x] by linarith
qed

text \<open>The largest float64 below 1.\<close>

lemma f64_mul_below:
  assumes "1 \<le> n" "n < 2 ^ 53" "0 \<le> l" "l \<le> 1 - 1 / 2 ^ 53"
  shows "f64_mul (int_to_f64 n) l < of_int n"
proof -
  let ?n = "of_int n :: rat"
  let ?z = "?n * (1 - 1 / 2 ^ 53)"
  have n: "int_to_f64 n = ?n" using assms(1,2) by (intro int_to_f64_exact) simp_all
  have npos: "0 < ?n" using assms(1) by simp
  have zpos: "0 < ?z" using npos by simp
  have "?n * l \<le> ?z" using assms(4) npos by (intro mult_left_mono) simp_all
  moreover have "0 \<le> ?n * l" using assms(3) npos by simp
  ultimately have "f64_round (?n * l) \<le> f64_round ?z" by (intro f64_round_mono)
  moreover have "f64_round ?z < ?n"
  proof -
    have "(2::rat) powi (- 1) \<le> ?z"
    proof -
      have "(1::rat) \<le> ?n" using assms(1) by simp
      then have "1 * (1 - 1 / 2 ^ 53) \<le> ?z" by (intro mult_right_mono) simp_all
      then show ?thesis by (simp add: power_int_def)
    qed
    then have "- 1 \<le> ilog2 ?z" using zpos by (intro ilog2_ge)
    then have "\<bar>f64_round ?z - ?z\<bar> \<le> ?z / 2 ^ 53" using zpos by (intro f64_round_err_rel) simp_all
    moreover have "?z / 2 ^ 53 < ?n / 2 ^ 53" using npos by (simp add: field_simps)
    moreover have "?z + ?n / 2 ^ 53 = ?n" by (simp add: field_simps)
    ultimately show ?thesis by linarith
  qed
  ultimately show ?thesis unfolding f64_mul_def n by simp
qed

section \<open>The range of the luminance\<close>

lemma f64_round_1 [simp]: "f64_round 1 = 1"
  using f64_round_of_int[of 1] by simp

lemma uint32_lt: "uint (v :: 32 word) < 2 ^ 53"
proof -
  have "uint v < 2 ^ 32" using uint_bounded[of v] by simp
  then show ?thesis by simp
qed

lemma normalized_eq: "normalized v = f64_round (of_int (uint v) / 65535)"
  unfolding normalized_def f64_quot_def using int_to_f64_exact[of "uint v"] uint32_lt[of v]
  by (simp del: of_int_uint)

lemma normalized_nonneg: "0 \<le> normalized v"
  unfolding normalized_eq by (rule f64_round_nonneg) (simp del: of_int_uint)

lemma normalized_mono: "v \<le> w \<Longrightarrow> normalized v \<le> normalized w"
  unfolding normalized_eq
  by (rule f64_round_mono) (simp_all add: word_le_def divide_right_mono del: of_int_uint)





lemma f64_mul_mono: "0 \<le> a \<Longrightarrow> 0 \<le> x \<Longrightarrow> x \<le> y \<Longrightarrow> f64_mul a x \<le> f64_mul a y"
  unfolding f64_mul_def by (intro f64_round_mono mult_left_mono mult_nonneg_nonneg)

lemma f64_add_mono: "0 \<le> a \<Longrightarrow> 0 \<le> b \<Longrightarrow> a \<le> a' \<Longrightarrow> b \<le> b' \<Longrightarrow> f64_add a b \<le> f64_add a' b'"
  unfolding f64_add_def by (intro f64_round_mono add_mono add_nonneg_nonneg)

lemma f64_mul_nonneg: "0 \<le> a \<Longrightarrow> 0 \<le> b \<Longrightarrow> 0 \<le> f64_mul a b"
  unfolding f64_mul_def by (intro f64_round_nonneg mult_nonneg_nonneg)

lemma f64_add_nonneg: "0 \<le> a \<Longrightarrow> 0 \<le> b \<Longrightarrow> 0 \<le> f64_add a b"
  unfolding f64_add_def by (intro f64_round_nonneg add_nonneg_nonneg)

lemma luminance_white: "luminance white = 1 - 1 / 2 ^ 53"
  by code_simp

lemma luminance_nonneg: "0 \<le> luminance c"
  unfolding luminance_def Let_def
  by (intro f64_add_nonneg f64_mul_nonneg normalized_nonneg f64_round_nonneg) simp_all

lemma luminance_le_white:
  assumes "valid_color c"
  shows "luminance c \<le> luminance white"
proof -
  have n: "normalized (cR (color_RGBA c)) \<le> normalized 0xffff"
    "normalized (cG (color_RGBA c)) \<le> normalized 0xffff"
    "normalized (cB (color_RGBA c)) \<le> normalized 0xffff"
    using assms by (simp_all add: valid_color_def normalized_mono)
  have w: "color_RGBA white = \<lparr>cR = 0xffff, cG = 0xffff, cB = 0xffff, cA = 0xffff\<rparr>"
    by code_simp
  show ?thesis
    unfolding luminance_def Let_def w
    apply simp
    apply (intro f64_add_mono f64_mul_mono f64_add_nonneg f64_mul_nonneg normalized_nonneg f64_round_nonneg n)
    apply simp_all
    done
qed

lemma luminance_lt_1: "valid_color c \<Longrightarrow> luminance c \<le> 1 - 1 / 2 ^ 53"
  using luminance_le_white[of c] luminance_white by simp


section \<open>The loops of the sampler\<close>

lemma fold_err_pure:
  "(\<And>x s. x \<in> set xs \<Longrightarrow> f x s = Inr (g x s)) \<Longrightarrow> fold_err f xs s = Inr (fold g xs s)"
  by (induction xs arbitrary: s) simp_all

lemma for_range_skip: "n \<le> 0 \<Longrightarrow> for_range n body s = Inr s"
  by (simp add: for_range_def)

lemma int_to_f64_pos: "0 < n \<Longrightarrow> 0 < int_to_f64 n"
proof -
  assume "0 < n"
  then have "(1::rat) \<le> of_int n" by simp
  then have "f64_round 1 \<le> f64_round (of_int n)" by (intro f64_round_mono) simp_all
  then show ?thesis by (simp add: int_to_f64_def)
qed

lemma src_coord_pos: "0 < width \<Longrightarrow> src_coord x width X = Inr (src_index x width X)"
  using int_to_f64_pos[of width] by (simp add: src_coord_def f64_div_def src_index_def)

lemma image_Set_Bounds [simp]: "Bounds (image_Set img x y c) = Bounds img"
  by (simp add: image_Set_def)

lemma pix_image_Set:
  "pix (image_Set img x y c) p =
     (if p = (x, y) \<and> point_In p (Bounds img) then nrgbaModel c else pix img p)"
  by (auto simp: image_Set_def)

lemma fold_col_Bounds [simp]:
  "Bounds (fold (\<lambda>y out. image_Set out x y (F x y)) ys out) = Bounds out"
  by (induction ys arbitrary: out) simp_all

lemma fold_col_pix:
  "pix (fold (\<lambda>y out. image_Set out x y (F x y)) ys out) p =
     (if fst p = x \<and> snd p \<in> set ys \<and> point_In p (Bounds out) then nrgbaModel (F x (snd p))
      else pix out p)"
  by (induction ys arbitrary: out) (auto simp: pix_image_Set)

lemma fold_grid_Bounds [simp]:
  "Bounds (fold (\<lambda>x. fold (\<lambda>y out. image_Set out x y (F x y)) ys) xs out) = Bounds out"
  by (induction xs arbitrary: out) simp_all

lemma fold_grid_pix:
  "pix (fold (\<lambda>x. fold (\<lambda>y out. image_Set out x y (F x y)) ys) xs out) p =
     (if fst p \<in> set xs \<and> snd p \<in> set ys \<and> point_In p (Bounds out)
      then nrgbaModel (F (fst p) (snd p)) else pix out p)"
  by (induction xs arbitrary: out) (auto simp: fold_col_pix)

lemma resize_pixel_pos:
  "0 < width \<Longrightarrow> 0 < height \<Longrightarrow> resize_pixel img width height x y out =
     Inr (image_Set out x y (image_At img (src_index x width (fst (rect_Size (Bounds img))))
                       (src_index y height (snd (rect_Size (Bounds img))))))"
  by (simp add: resize_pixel_def src_coord_pos)

lemma NewNRGBA_ok: "0 \<le> buffer_length width height \<Longrightarrow>
    NewNRGBA (Rect 0 0 width height) = Inr (blank (Rect 0 0 width height))"
  by (simp add: NewNRGBA_def buffer_length_def blank_def)

lemma NewNRGBA_huge: "buffer_length width height < 0 \<Longrightarrow>
    NewNRGBA (Rect 0 0 width height) = Inl HugeDimensions"
  by (simp add: NewNRGBA_def buffer_length_def)

lemma resize_huge: "buffer_length width height < 0 \<Longrightarrow> resize img width height = Inl HugeDimensions"
  by (simp add: resize_def NewNRGBA_huge)

lemma resize_eq:
  assumes "0 \<le> buffer_length width height"
  shows "resize img width height = Inr (resized img width height)"
proof -
  have "for_range width (\<lambda>x. for_range height (\<lambda>y. resize_pixel img width height x y))
          (blank (Rect 0 0 width height)) = Inr (resized img width height)"
    unfolding resized_def for_range_def
    by (intro fold_err_pure) (simp add: resize_pixel_pos)
  then show ?thesis by (simp add: resize_def NewNRGBA_ok[OF assms])
qed

lemma resized_Bounds: "Bounds (resized img width height) = Rect 0 0 width height"
  by (simp add: resized_def blank_def)

lemma wrap64_id: "- (2 ^ 63) \<le> n \<Longrightarrow> n < 2 ^ 63 \<Longrightarrow> wrap64 n = n"
  by (simp add: wrap64_def)

lemma wrap64_top: "wrap64 (2 ^ 63) = - (2 ^ 63)"
  by (simp add: wrap64_def)

lemma rect_Dx_Rect: "rect_Dx (Rect 0 0 w h) = wrap64 \<bar>w\<bar>"
  by (simp add: rect_Dx_def Rect_def)

lemma rect_Dy_Rect: "rect_Dy (Rect 0 0 w h) = wrap64 \<bar>h\<bar>"
  by (simp add: rect_Dy_def Rect_def)

lemma wrap64_abs:
  assumes "- (2 ^ 63) \<le> n" "n < 2 ^ 63"
  shows "wrap64 \<bar>n\<bar> = (if n = - (2 ^ 63) then - (2 ^ 63) else \<bar>n\<bar>)"
proof (cases "n = - (2 ^ 63)")
  case True
  then show ?thesis using wrap64_top by simp
next
  case False
  then have "- (2 ^ 63) \<le> \<bar>n\<bar>" "\<bar>n\<bar> < 2 ^ 63" using assms by linarith+
  then show ?thesis using False by (simp add: wrap64_id)
qed

lemma mul3NonNeg_4:
  assumes "0 \<le> a" "0 \<le> b"
  shows "0 \<le> mul3NonNeg 4 a b \<longleftrightarrow> a < 2 ^ 62 \<and> 4 * a * b < 2 ^ 63"
proof -
  have "0 \<le> a * b" using assms by simp
  then show ?thesis using assms unfolding mul3NonNeg_def by auto
qed

lemma buffer_length_iff:
  assumes "- (2 ^ 63) \<le> w" "w < 2 ^ 63" "- (2 ^ 63) \<le> h" "h < 2 ^ 63"
  shows "0 \<le> buffer_length w h \<longleftrightarrow>
           \<bar>w\<bar> < 2 ^ 62 \<and> \<bar>h\<bar> < 2 ^ 63 \<and> 4 * \<bar>w\<bar> * \<bar>h\<bar> < 2 ^ 63"
proof (cases "w = - (2 ^ 63) \<or> h = - (2 ^ 63)")
  case True
  then show ?thesis
    unfolding buffer_length_def rect_Dx_Rect rect_Dy_Rect wrap64_abs[OF assms(1,2)] wrap64_abs[OF assms(3,4)]
    by (auto simp: mul3NonNeg_def)
next
  case False
  then show ?thesis
    unfolding buffer_length_def rect_Dx_Rect rect_Dy_Rect wrap64_abs[OF assms(1,2)] wrap64_abs[OF assms(3,4)]
    using mul3NonNeg_4[of "\<bar>w\<bar>" "\<bar>h\<bar>"] assms by auto
qed

lemma point_In_Rect:
  "0 \<le> w \<Longrightarrow> 0 \<le> h \<Longrightarrow> point_In p (Rect 0 0 w h) \<longleftrightarrow> 0 \<le> fst p \<and> fst p < w \<and> 0 \<le> snd p \<and> snd p < h"
  by (auto simp: point_In_def Rect_def)

lemma resized_At:
  assumes "0 \<le> x" "x < width" "0 \<le> y" "y < height"
  shows "image_At (resized img width height) x y =
     nrgbaModel (image_At img (src_index x width (fst (rect_Size (Bounds img))))
                  (src_index y height (snd (rect_Size (Bounds img)))))"
proof -
  have inside: "point_In (x, y) (Rect 0 0 width height)" using assms by (simp add: point_In_Rect)
  then have "image_At (resized img width height) x y = pix (resized img width height) (x, y)"
    by (simp add: image_At_def resized_Bounds)
  also have "\<dots> = nrgbaModel (image_At img (src_index x width (fst (rect_Size (Bounds img))))
                  (src_index y height (snd (rect_Size (Bounds img)))))"
    using assms inside by (simp add: resized_def fold_grid_pix blank_def)
  finally show ?thesis .
qed

section \<open>Parsing the size and skipping the loops\<close>

lemma cut_first_absent: "c \<notin> set s \<Longrightarrow> cut_first c s = None"
  by (induction s) auto

lemma cut_first_split: "c \<notin> set a \<Longrightarrow> cut_first c (a @ c # b) = Some (a, b)"
  by (induction a) auto

lemma SplitN2_absent: "c \<notin> set s \<Longrightarrow> SplitN2 s c = [s]"
  by (simp add: SplitN2_def cut_first_absent)

lemma SplitN2_split: "c \<notin> set a \<Longrightarrow> SplitN2 (a @ c # b) c = [a, b]"
  by (simp add: SplitN2_def cut_first_split)

lemma parse_digits_non_digit:
  "\<exists>c \<in> set s. \<not> is_digit c \<Longrightarrow> \<exists>e. parse_digits n s = Inl e"
  by (induction s arbitrary: n) (auto simp: Let_def)

lemma ParseUint_not_numeric: "\<not> numeric s \<Longrightarrow> \<exists>e. ParseUint s = Inl e"
  using parse_digits_non_digit[of s 0] by (auto simp: ParseUint_def numeric_def)

lemma parseResize_no_separator:
  "value \<noteq> [] \<Longrightarrow> CHR ''x'' \<notin> set value \<Longrightarrow> parseResize value img = Inl (InvalidResize value)"
  by (simp add: parseResize_def SplitN2_absent)

lemma parseResize_not_numeric:
  assumes "CHR ''x'' \<notin> set w" "\<not> numeric w \<or> \<not> numeric h"
  shows "\<exists>s e. parseResize (w @ CHR ''x'' # h) img = Inl (NumError s e)"
proof (cases "ParseUint w")
  case (Inl e)
  then show ?thesis using assms(1) by (simp add: parseResize_def SplitN2_split)
next
  case (Inr n)
  then have "numeric w" using ParseUint_not_numeric[of w] by auto
  then obtain e where "ParseUint h = Inl e" using assms(2) ParseUint_not_numeric[of h] by auto
  then show ?thesis using assms(1) Inr by (simp add: parseResize_def SplitN2_split)
qed

lemma target_dims_error: "parseResize (Resize opts) img = Inl e \<Longrightarrow> target_dims opts img = Inl e"
  by (simp add: target_dims_def)

lemma asciify_error:
  "target_dims opts img = Inl e \<Longrightarrow> \<exists>e'. asciify opts img = Inl e'"
  by (simp add: asciify_def split: option.splits)

lemma f64_to_int_nonpos: "f \<le> 0 \<Longrightarrow> f64_to_int f \<le> 0"
proof -
  assume f: "f \<le> 0"
  have "(if 0 \<le> f then \<lfloor>f\<rfloor> else \<lceil>f\<rceil>) \<le> 0"
  proof (cases "0 \<le> f")
    case True
    then have "f = 0" using f by simp
    then show ?thesis by simp
  next
    case False
    then show ?thesis using f by (simp add: ceiling_le_iff)
  qed
  then show ?thesis by (simp add: f64_to_int_def Let_def)
qed

lemma scaled_nonpos:
  assumes "0 \<le> n" "s < 0"
  shows "f64_to_int (f64_mul (int_to_f64 n) s) \<le> 0"
proof -
  have "0 \<le> int_to_f64 n" unfolding int_to_f64_def using assms(1) by (intro f64_round_nonneg) simp
  then have "int_to_f64 n * s \<le> 0" using assms(2) by (simp add: mult_le_0_iff)
  then have "f64_mul (int_to_f64 n) s \<le> 0" unfolding f64_mul_def by (rule f64_round_nonpos)
  then show ?thesis by (rule f64_to_int_nonpos)
qed

lemma f64_to_int_range: "- (2 ^ 63) \<le> f64_to_int f \<and> f64_to_int f < 2 ^ 63"
  by (simp add: f64_to_int_def Let_def)

lemma resize_skip:
  assumes "width \<le> 0 \<or> height \<le> 0" "0 \<le> buffer_length width height"
  shows "resize img width height = Inr (blank (Rect 0 0 width height))"
proof -
  have "for_range width (\<lambda>x. for_range height (\<lambda>y. resize_pixel img width height x y)) s = Inr s" for s
  proof (cases "width \<le> 0")
    case True then show ?thesis by (rule for_range_skip)
  next
    case False
    then have h: "height \<le> 0" using assms by simp
    have "fold_err (\<lambda>x. for_range height (\<lambda>y. resize_pixel img width height x y)) xs s = Inr s" for xs
      by (induction xs) (simp_all add: for_range_skip[OF h])
    then show ?thesis by (simp add: for_range_def)
  qed
  then show ?thesis by (simp add: resize_def NewNRGBA_ok[OF assms(2)])
qed

lemma render_skip: "oh \<le> 0 \<Longrightarrow> render charset img ow oh = Inr []"
  by (simp add: render_def for_range_skip)

section \<open>The glyph index and the assembled text\<close>

lemma f64_to_int_floor: "0 \<le> f \<Longrightarrow> f < 2 ^ 63 \<Longrightarrow> f64_to_int f = \<lfloor>f\<rfloor>"
proof -
  assume a: "0 \<le> f" "f < 2 ^ 63"
  have "0 \<le> \<lfloor>f\<rfloor>" using a(1) by simp
  moreover have "\<lfloor>f\<rfloor> < 2 ^ 63" using a(2) by (simp add: floor_less_iff)
  ultimately show ?thesis using a(1) by (simp add: f64_to_int_def Let_def)
qed

lemma glyph_index_range:
  assumes "1 \<le> n" "int n < 2 ^ 53" "0 \<le> l" "l \<le> 1 - 1 / 2 ^ 53"
  shows "glyph_index n l = \<lfloor>f64_mul (int_to_f64 (int n)) l\<rfloor>"
    and "0 \<le> glyph_index n l" and "glyph_index n l < int n"
proof -
  let ?p = "f64_mul (int_to_f64 (int n)) l"
  have lt: "?p < of_int (int n)" using assms by (intro f64_mul_below) simp_all
  have n: "int_to_f64 (int n) = of_int (int n)" using assms(2) by (intro int_to_f64_exact) simp_all
  have ge: "0 \<le> ?p" unfolding f64_mul_def n using assms(3) by (intro f64_round_nonneg) simp
  have "(of_int (int n) :: rat) < of_int (2 ^ 53)" using assms(2) by (simp only: of_int_less_iff)
  then have "?p < 2 ^ 63" using lt by simp
  then show eq: "glyph_index n l = \<lfloor>?p\<rfloor>" unfolding glyph_index_def using ge by (intro f64_to_int_floor)
  show "0 \<le> glyph_index n l" unfolding eq using ge by simp
  show "glyph_index n l < int n" unfolding eq using lt by (simp add: floor_less_iff)
qed

lemma glyph_ok:
  assumes "1 \<le> length charset" "int (length charset) < 2 ^ 53" "0 \<le> l" "l \<le> 1 - 1 / 2 ^ 53"
  shows "glyph charset l = Inr (charset ! nat (glyph_index (length charset) l))"
  using glyph_index_range(2,3)[OF assms] by (simp add: glyph_def Let_def)

lemma zero_color_valid [simp]: "valid_color zero_color"
  by (simp add: valid_color_def zero_color_def premultiply_def widen8_def)

lemma image_At_valid: "\<forall>p. valid_color (pix img p) \<Longrightarrow> valid_color (image_At img x y)"
  by (simp add: image_At_def)

lemma glyph_luminance:
  assumes "1 \<le> length charset" "int (length charset) < 2 ^ 53" "valid_color c"
  shows "glyph charset (luminance c) = Inr (glyph_of charset c)"
  unfolding glyph_of_def
  using assms luminance_nonneg[of c] luminance_lt_1[of c] by (intro glyph_ok) simp_all

lemma fold_snoc_map: "fold (\<lambda>x s. s @ [h x]) xs s = s @ map h xs"
  by (induction xs arbitrary: s) simp_all

lemma fold_append_map: "fold (\<lambda>x s. s @ h x) xs s = s @ concat (map h xs)"
  by (induction xs arbitrary: s) simp_all

lemma render_row_eq:
  assumes "1 \<le> length charset" "int (length charset) < 2 ^ 53" "\<forall>p. valid_color (pix img p)"
  shows "render_row charset img ow oh y result =
     Inr (result @ row_text charset img ow y @ (if y + 1 \<noteq> oh then [CHR 0x0A] else []))"
proof -
  have "for_range ow (render_pixel charset img y) result =
      Inr (fold (\<lambda>x s. s @ [glyph_of charset (image_At img x y)]) [0..ow - 1] result)"
    unfolding for_range_def
    by (intro fold_err_pure) (simp add: render_pixel_def glyph_luminance[OF assms(1,2)] image_At_valid[OF assms(3)])
  then show ?thesis by (simp add: render_row_def fold_snoc_map row_text_def)
qed

lemma render_eq:
  assumes "1 \<le> length charset" "int (length charset) < 2 ^ 53" "\<forall>p. valid_color (pix img p)"
  shows "render charset img ow oh =
     Inr (concat (map (\<lambda>y. row_text charset img ow y @ (if y + 1 \<noteq> oh then [CHR 0x0A] else []))
       [0..oh - 1]))"
proof -
  have "render charset img ow oh =
     Inr (fold (\<lambda>y s. s @ (row_text charset img ow y @ (if y + 1 \<noteq> oh then [CHR 0x0A] else [])))
       [0..oh - 1] [])"
    unfolding render_def for_range_def
    by (intro fold_err_pure) (simp add: render_row_eq[OF assms])
  then show ?thesis by (simp add: fold_append_map)
qed

lemma render_lines:
  assumes "1 \<le> length charset" "int (length charset) < 2 ^ 53" "\<forall>p. valid_color (pix img p)"
    and "1 \<le> oh"
  shows "render charset img ow oh =
     Inr (concat (map (\<lambda>y. row_text charset img ow y @ [CHR 0x0A]) [0..oh - 2])
          @ row_text charset img ow (oh - 1))"
proof -
  have u: "[0..oh - 1] = [0..oh - 2] @ [oh - 1]"
    using assms(4) upto_rec2[of 0 "oh - 1"] by (simp add: algebra_simps)
  have "\<forall>y \<in> set [0..oh - 2]. y + 1 \<noteq> oh" by auto
  then have m: "map (\<lambda>y. row_text charset img ow y @ (if y + 1 \<noteq> oh then [CHR 0x0A] else [])) [0..oh - 2]
      = map (\<lambda>y. row_text charset img ow y @ [CHR 0x0A]) [0..oh - 2]"
    by (intro map_cong) simp_all
  show ?thesis unfolding render_eq[OF assms(1-3)] u map_append concat_append m by simp
qed

text \<open>Every sample of an \<open>*image.NRGBA\<close> has its channels within \<open>[0, 0xffff]\<close>.\<close>

lemma widen8_eq: "widen8 v = ucast v * 0x101"
proof -
  let ?x = "ucast v :: 32 word"
  have "?x + push_bit 8 ?x = ?x OR push_bit 8 ?x"
    by (rule disjunctive_add) (auto simp: bit_ucast_iff bit_push_bit_iff dest: bit_imp_le_length)
  then show ?thesis by (simp add: widen8_def Let_def push_bit_eq_mult algebra_simps)
qed

lemma unat_ucast8: "unat (ucast (v :: 8 word) :: 32 word) = unat v"
proof -
  have "unat v < 2 ^ 8" using unsigned_less[of v, where 'a = nat] by simp
  then have "unat v < 2 ^ 32" by simp
  then show ?thesis by (simp add: unsigned_ucast_eq take_bit_nat_eq_self)
qed

lemma unat8_le: "unat (v :: 8 word) \<le> 255"
  using unsigned_less[of v, where 'a = nat] by simp

lemma unat_widen8: "unat (widen8 v) = unat v * 257"
proof -
  have "unat (ucast v :: 32 word) * unat (0x101 :: 32 word) < 2 ^ LENGTH(32)"
    using unat8_le[of v] by (simp add: unat_ucast8)
  then have "unat ((ucast v :: 32 word) * 0x101) = unat (ucast v :: 32 word) * unat (0x101 :: 32 word)"
    by (simp only: unat_mult_lem)
  then show ?thesis by (simp add: widen8_eq unat_ucast8)
qed

lemma prod8_bound:
  "unat (v :: 8 word) * 257 * unat (a :: 8 word) < 4294967296"
  "(unat v * 257 * unat a) div 255 \<le> 65535"
proof -
  define k where "k = unat v * unat a"
  have "unat v * unat a \<le> 255 * 255" using unat8_le[of v] unat8_le[of a] by (intro mult_mono) simp_all
  then have k: "k \<le> 65025" by (simp add: k_def)
  have e: "unat v * 257 * unat a = 257 * k" by (simp add: k_def)
  show "unat v * 257 * unat a < 4294967296" unfolding e using k by simp
  show "(unat v * 257 * unat a) div 255 \<le> 65535" unfolding e using k by simp
qed

lemma unat_premultiply: "unat (premultiply v a) = (unat v * 257 * unat a) div 255"
proof -
  have "unat (widen8 v) * unat (ucast a :: 32 word) < 2 ^ LENGTH(32)"
    using prod8_bound(1)[of v a] by (simp add: unat_widen8 unat_ucast8)
  then have "unat (widen8 v * ucast a) = unat (widen8 v) * unat (ucast a :: 32 word)"
    by (simp only: unat_mult_lem)
  then show ?thesis by (simp add: premultiply_def unat_div unat_widen8 unat_ucast8)
qed

lemma NRGBA_valid: "valid_color (NRGBA r g b a)"
proof -
  have p: "premultiply v a \<le> 0xffff" for v
    using prod8_bound(2)[of v a] by (simp add: word_le_nat_alt unat_premultiply)
  have "widen8 a \<le> 0xffff" using unat8_le[of a] by (simp add: word_le_nat_alt unat_widen8)
  then show ?thesis using p by (simp add: valid_color_def)
qed

lemma nrgbaModel_valid: "valid_color (nrgbaModel c)"
  by (cases c) (simp_all add: NRGBA_valid)

lemma resized_valid: "valid_color (pix (resized img width height) p)"
  by (simp add: resized_def fold_grid_pix blank_def nrgbaModel_valid)

lemma upto_snoc: "1 \<le> n \<Longrightarrow> [0..n - 1] = [0..n - 2] @ [n - 1]"
  using upto_rec2[of 0 "n - 1"] by (simp add: algebra_simps)

lemma row_text_length: "length (row_text charset img ow y) = nat ow"
  by (simp add: row_text_def)

lemma row_text_nth:
  "0 \<le> x \<Longrightarrow> x < ow \<Longrightarrow> row_text charset img ow y ! nat x = glyph_of charset (image_At img x y)"
  by (simp add: row_text_def)

section \<open>The claims\<close>

subsection \<open>C1\<close>

text \<open>
  Claim C1, as amended. The glyph mapper has no clamp: the index is the float64 product
  \<open>float64(N) * L\<close> with its fraction discarded. For a ramp of length \<open>1 \<le> N < 2 ^ 53\<close> and
  every luminance \<open>L\<close> from 0 up to the largest float64 below 1, \<open>1 - 1 / 2 ^ 53\<close>, that
  index is the floor of the rounded product and lies in \<open>[0, N - 1]\<close>, so the character is
  read in bounds; \<open>L = 0\<close> selects index 0. The luminance of every colour sample whose
  channels are within \<open>[0, 0xffff]\<close> lies in that range: white gives \<open>1 - 1 / 2 ^ 53\<close>, never
  1. (At \<open>L = 1\<close> itself the index would be \<open>N\<close>: see the counterexample below.)
\<close>

theorem glyph_index_in_bounds:
  assumes "1 \<le> length charset" "int (length charset) < 2 ^ 53"
  shows "(0 \<le> l \<and> l \<le> 1 - 1 / 2 ^ 53 \<longrightarrow>
           glyph_index (length charset) l = \<lfloor>f64_mul (int_to_f64 (int (length charset))) l\<rfloor> \<and>
           0 \<le> glyph_index (length charset) l \<and>
           glyph_index (length charset) l \<le> int (length charset) - 1 \<and>
           glyph charset l = Inr (charset ! nat (glyph_index (length charset) l))) \<and>
         glyph charset 0 = Inr (charset ! 0) \<and>
         (valid_color c \<longrightarrow> 0 \<le> luminance c \<and> luminance c \<le> 1 - 1 / 2 ^ 53)"
proof -
  have z: "glyph_index n 0 = 0" for n
    by (simp add: glyph_index_def f64_mul_def f64_to_int_def)
  have "glyph charset 0 = Inr (charset ! 0)" using assms(1) by (cases charset) (simp_all add: glyph_def z)
  then show ?thesis
    using glyph_index_range[OF assms, of l] glyph_ok[OF assms, of l]
      luminance_nonneg[of c] luminance_lt_1[of c]
    by auto
qed

theorem glyph_index_in_bounds_witness:
  "(1::nat) \<le> length ''AB'' \<and> int (length ''AB'') < 2 ^ 53 \<and> valid_color white \<and>
   glyph ''AB'' (luminance white) = Inr CHR ''B'' \<and> glyph ''AB'' 0 = Inr CHR ''A''"
proof -
  have h: "1 \<le> length ''AB''" "int (length ''AB'') < 2 ^ 53" by simp_all
  have v: "valid_color white" by code_simp
  have r: "0 \<le> luminance white \<and> luminance white \<le> 1 - 1 / 2 ^ 53"
    by (simp add: luminance_white)
  have i: "nat (glyph_index (length ''AB'') (luminance white)) = 1" by code_simp
  from glyph_index_in_bounds[OF h, of "luminance white" white] r
  have "glyph ''AB'' (luminance white) = Inr (''AB'' ! nat (glyph_index (length ''AB'') (luminance white)))"
    and "glyph ''AB'' 0 = Inr (''AB'' ! 0)" by blast+
  then show ?thesis using h v unfolding i by simp
qed

text \<open>
  At \<open>L = 1\<close> the index is the length of the ramp, and the access is out of bounds. Below 1
  the index is the floor of the rounded product, not of the exact one: for a ramp of
  length 3 and \<open>L\<close> the float64 nearest to \<open>1 / 3\<close> the index is 1, the exact product
  being less than 1.
\<close>

theorem glyph_unclamped_counterexample:
  "glyph ''AB'' 1 = Inl (IndexOutOfRange 2 2) \<and> glyph ''AB'' 1 \<noteq> Inr (''AB'' ! (2 - 1)) \<and>
   glyph_index 3 (f64_round (1 / 3)) = 1 \<and> \<lfloor>3 * f64_round (1 / 3)\<rfloor> = 0"
  by code_simp

subsection \<open>C2\<close>

text \<open>
  Claim C2, as amended. When the resize option is accepted by \<open>parseResize\<close> and the scale
  factor is not zero, the scale factor takes precedence: the target size is
  \<open>(int(Ws * s), int(Hs * s))\<close>, computed in float64, and it is the same as with no resize
  option at all. The order of precedence is: a non-zero scale factor, then the explicit
  size, then the source size.
\<close>

theorem scale_overrides_resize:
  assumes "parseResize (Resize opts) img = Inr d" "Scale opts \<noteq> 0"
  shows "target_dims opts img =
           Inr (f64_to_int (f64_mul (int_to_f64 (fst (rect_Size (Bounds img)))) (Scale opts)),
                f64_to_int (f64_mul (int_to_f64 (snd (rect_Size (Bounds img)))) (Scale opts))) \<and>
         target_dims opts img = target_dims (opts\<lparr>Resize := []\<rparr>) img"
  using assms by (cases d) (simp add: target_dims_def parseResize_def Let_def)

theorem scale_overrides_resize_witness:
  "parseResize (Resize (default_opts\<lparr>Resize := ''10x10'', Scale := 1 / 2\<rparr>)) (img_const 4 4 black) = Inr (10, 10)
   \<and> Scale (default_opts\<lparr>Resize := ''10x10'', Scale := 1 / 2\<rparr>) \<noteq> 0
   \<and> target_dims (default_opts\<lparr>Resize := ''10x10'', Scale := 1 / 2\<rparr>) (img_const 4 4 black)
       = target_dims (default_opts\<lparr>Resize := ''10x10'', Scale := 1 / 2, Resize := []\<rparr>) (img_const 4 4 black)"
proof -
  have p: "parseResize (Resize (default_opts\<lparr>Resize := ''10x10'', Scale := 1 / 2\<rparr>)) (img_const 4 4 black) = Inr (10, 10)"
    by code_simp
  have s: "Scale (default_opts\<lparr>Resize := ''10x10'', Scale := 1 / 2\<rparr>) \<noteq> 0" by (simp add: default_opts_def)
  from scale_overrides_resize[OF p s] p s show ?thesis by blast
qed

text \<open>
  With the resize option \<open>10x10\<close> and the scale factor \<open>0.5\<close> a source of 4 by 4 samples
  is sampled to 2 by 2, not to 10 by 10.
\<close>

theorem resize_precedence_counterexample:
  "target_dims (default_opts\<lparr>Resize := ''10x10'', Scale := 1 / 2\<rparr>) (img_const 4 4 black) = Inr (2, 2)
   \<and> target_dims (default_opts\<lparr>Resize := ''10x10'', Scale := 1 / 2\<rparr>) (img_const 4 4 black) \<noteq> Inr (10, 10)"
  by code_simp

subsection \<open>C3\<close>

text \<open>
  Claim C3, as amended. The luminance depends on a sample only through the red, green
  and blue channels that \<open>RGBA()\<close> returns: two samples that agree there have the same
  luminance, and the alpha channel of that result is ignored. Those channels are
  alpha-premultiplied, so the alpha byte of a \<open>color.NRGBA\<close> sample, the type of every
  sample of the resized grid, does reach the luminance: a fully transparent
  \<open>color.NRGBA\<close> sample has luminance 0 whatever its red, green and blue bytes.
\<close>

theorem luminance_alpha_premultiplied:
  "(cR (color_RGBA c) = cR (color_RGBA c') \<and> cG (color_RGBA c) = cG (color_RGBA c') \<and>
    cB (color_RGBA c) = cB (color_RGBA c') \<longrightarrow> luminance c = luminance c') \<and>
   luminance (OtherColor (s\<lparr>cA := a\<rparr>)) = luminance (OtherColor s) \<and>
   luminance (NRGBA r g b 0) = 0"
proof -
  have 1: "cR (color_RGBA c) = cR (color_RGBA c') \<and> cG (color_RGBA c) = cG (color_RGBA c') \<and>
    cB (color_RGBA c) = cB (color_RGBA c') \<longrightarrow> luminance c = luminance c'"
    by (simp add: luminance_def Let_def)
  have 2: "luminance (OtherColor (s\<lparr>cA := a\<rparr>)) = luminance (OtherColor s)"
    by (simp add: luminance_def Let_def)
  have 3: "luminance (NRGBA r g b 0) = 0"
    by (simp add: luminance_def normalized_def premultiply_def f64_quot_def int_to_f64_def
        f64_mul_def f64_add_def)
  from 1 2 3 show ?thesis by (intro conjI)
qed

theorem luminance_alpha_premultiplied_witness:
  "cR (color_RGBA transparent_white) = cR (color_RGBA black) \<and>
   cG (color_RGBA transparent_white) = cG (color_RGBA black) \<and>
   cB (color_RGBA transparent_white) = cB (color_RGBA black) \<and>
   cA (color_RGBA transparent_white) \<noteq> cA (color_RGBA black) \<and>
   luminance transparent_white = luminance black"
proof -
  have h: "cR (color_RGBA transparent_white) = cR (color_RGBA black) \<and>
   cG (color_RGBA transparent_white) = cG (color_RGBA black) \<and>
   cB (color_RGBA transparent_white) = cB (color_RGBA black)" by code_simp
  have a: "cA (color_RGBA transparent_white) \<noteq> cA (color_RGBA black)" by code_simp
  from luminance_alpha_premultiplied[of transparent_white black] h a show ?thesis by blast
qed

text \<open>
  A fully transparent white \<open>color.NRGBA\<close> sample and the opaque one have the same red,
  green and blue bytes and different luminances, 0 and \<open>1 - 1 / 2 ^ 53\<close>; the pipeline
  renders the first as the first character of the ramp and the second as the last.
\<close>

theorem transparent_luminance_counterexample:
  "luminance transparent_white = 0 \<and> luminance white = 1 - 1 / 2 ^ 53 \<and>
   luminance transparent_white \<noteq> luminance white \<and>
   asciify default_opts (img_const 1 1 transparent_white) = Inr ''.'' \<and>
   asciify default_opts (img_const 1 1 white) = Inr ''$''"
  by code_simp

subsection \<open>C4\<close>

text \<open>
  Claim C4. For a ramp of length \<open>1 \<le> N < 2 ^ 53\<close>, a grid of samples with channels within
  \<open>[0, 0xffff]\<close> and a target size \<open>Wt, Ht \<ge> 1\<close>, the assembler returns a text (it never
  fails) made of exactly \<open>Ht\<close> rows of \<open>Wt\<close> characters each, the character at column
  \<open>x\<close> of row \<open>y\<close> being the glyph of the sample at \<open>(x, y)\<close>; every row but the last is
  followed by one line separator and nothing follows the last row.
\<close>

theorem render_shape:
  assumes "1 \<le> length charset" "int (length charset) < 2 ^ 53" "\<forall>p. valid_color (pix img p)"
    and "1 \<le> ow" "1 \<le> oh"
  shows "\<exists>rows. length rows = nat oh \<and> (\<forall>r \<in> set rows. length r = nat ow) \<and>
           (\<forall>x y. 0 \<le> x \<and> x < ow \<and> 0 \<le> y \<and> y < oh \<longrightarrow>
                  rows ! nat y ! nat x = glyph_of charset (image_At img x y)) \<and>
           render charset img ow oh =
             Inr (concat (map (\<lambda>r. r @ [CHR 0x0A]) (butlast rows)) @ last rows)"
proof -
  let ?rows = "map (row_text charset img ow) [0..oh - 1]"
  have u: "[0..oh - 1] = [0..oh - 2] @ [oh - 1]" using assms(5) by (rule upto_snoc)
  have b: "butlast ?rows = map (row_text charset img ow) [0..oh - 2]"
    unfolding u by (simp add: butlast_append)
  have l: "last ?rows = row_text charset img ow (oh - 1)" unfolding u by simp
  have 1: "length ?rows = nat oh" by simp
  have 2: "\<forall>r \<in> set ?rows. length r = nat ow" by (auto simp: row_text_length)
  have 3: "\<forall>x y. 0 \<le> x \<and> x < ow \<and> 0 \<le> y \<and> y < oh \<longrightarrow>
                  ?rows ! nat y ! nat x = glyph_of charset (image_At img x y)"
    by (auto simp: row_text_nth)
  have 4: "render charset img ow oh =
             Inr (concat (map (\<lambda>r. r @ [CHR 0x0A]) (butlast ?rows)) @ last ?rows)"
    unfolding b l render_lines[OF assms(1-3,5)] by (simp add: comp_def)
  from 1 2 3 4 show ?thesis by blast
qed

theorem render_shape_witness:
  "render ''AB'' (img_const 3 2 black) 3 2 = Inr (''AAA'' @ [CHR 0x0A] @ ''AAA'') \<and>
   (\<exists>rows. length rows = 2 \<and> (\<forall>r \<in> set rows. length r = 3) \<and>
      Inr (''AAA'' @ [CHR 0x0A] @ ''AAA'')
        = (Inr (concat (map (\<lambda>r. r @ [CHR 0x0A]) (butlast rows)) @ last rows) :: error + string))"
proof -
  have e: "render ''AB'' (img_const 3 2 black) 3 2 = Inr (''AAA'' @ [CHR 0x0A] @ ''AAA'')"
    by code_simp
  have "valid_color black" by code_simp
  then have v: "\<forall>p. valid_color (pix (img_const 3 2 black) p)"
    by (simp add: img_const_def)
  have h: "1 \<le> length ''AB''" "int (length ''AB'') < 2 ^ 53" "(1::int) \<le> 3" "(1::int) \<le> 2" by simp_all
  from render_shape[OF h(1,2) v h(3,4)] show ?thesis unfolding e by auto
qed

subsection \<open>C5\<close>

lemma gradient_Size: "rect_Size (Bounds (gradient 49 1)) = (49, 1)"
  by (simp add: gradient_def rect_Size_def rect_Dx_Rect rect_Dy_Rect wrap64_def)

lemma buffer_length_49: "0 \<le> buffer_length 49 1"
  by (simp add: buffer_length_def mul3NonNeg_def rect_Dx_Rect rect_Dy_Rect wrap64_def)

lemma src_index_49: "src_index 1 49 49 = 0" by code_simp

lemma src_index_1: "src_index 0 1 1 = 0" by code_simp

lemma gradient_49_kept: "nrgbaModel (image_At (gradient 49 1) 0 0) = image_At (gradient 49 1) 0 0"
  by (simp add: gradient_def image_At_def point_In_def Rect_def)

lemma resized_gradient_49: "image_At (resized (gradient 49 1) 49 1) 1 0 = image_At (gradient 49 1) 0 0"
  using resized_At[of 1 49 0 1 "gradient 49 1"]
  by (simp add: gradient_Size src_index_49 src_index_1 gradient_49_kept)

lemma gradient_49_At:
  "image_At (gradient 49 1) 0 0 \<noteq> image_At (gradient 49 1) 1 0"
  by (simp add: gradient_def image_At_def point_In_def Rect_def)

text \<open>
  Claim C5 fails on the code. The sampler computes the source column as
  \<open>int((float64(x) / float64(Wt)) * float64(Ws))\<close>; the two roundings make it differ from
  \<open>floor(x * Ws / Wt)\<close>. For \<open>Ws = Wt = 49\<close> and \<open>x = 1\<close> the quotient \<open>1 / 49\<close> is rounded
  down, the product is \<open>1 - 1 / 2 ^ 53\<close>, and the column is 0 where the formula gives 1:
  the target sample at \<open>(1, 0)\<close> is the source sample at \<open>(0, 0)\<close>. The example of the claim
  (a source of width 4 sampled to width 2 reads the columns 0 and 2) holds.
\<close>

theorem sampler_rounding_off_by_one:
  "src_coord 1 49 49 = Inr 0 \<and> (1 * 49) div 49 = (1::int) \<and>
   (\<exists>out. resize (gradient 49 1) 49 1 = Inr out \<and>
      image_At out 1 0 = image_At (gradient 49 1) 0 0 \<and>
      image_At out 1 0 \<noteq> image_At (gradient 49 1) ((1 * 49) div 49) ((0 * 1) div 1)) \<and>
   src_coord 0 2 4 = Inr 0 \<and> src_coord 1 2 4 = Inr 2"
proof -
  have a: "src_coord 1 49 49 = Inr 0" by code_simp
  have b: "src_coord 0 2 4 = Inr 0" "src_coord 1 2 4 = Inr 2" by code_simp+
  show ?thesis
    using a b resized_gradient_49 gradient_49_At by (simp add: resize_eq[OF buffer_length_49])
qed

subsection \<open>C6\<close>

text \<open>
  Claim C6, as amended. For target dimensions \<open>0 \<le> Wt, Ht < 2 ^ 63\<close> the sampler first
  allocates the grid. When the length of the pixel buffer does not fit \<open>int\<close>
  (\<open>Wt \<ge> 2 ^ 62\<close> or \<open>4 * Wt * Ht \<ge> 2 ^ 63\<close>) \<open>NewNRGBA\<close> panics. Otherwise the sampler
  returns a grid (it never reaches \<open>NotFinite\<close>, the outcome of a division by zero) whose
  bounds are exactly \<open>Wt\<close> columns and \<open>Ht\<close> rows; when \<open>Wt\<close> or \<open>Ht\<close> is 0 the result is
  the freshly allocated grid, in which no sample was set, and it contains no point.
\<close>

theorem resize_dimensions:
  assumes "0 \<le> width" "width < 2 ^ 63" "0 \<le> height" "height < 2 ^ 63"
  shows "(0 \<le> buffer_length width height \<longleftrightarrow> width < 2 ^ 62 \<and> 4 * width * height < 2 ^ 63) \<and>
         (buffer_length width height < 0 \<longrightarrow> resize img width height = Inl HugeDimensions) \<and>
         (0 \<le> buffer_length width height \<longrightarrow>
           (\<exists>output. resize img width height = Inr output \<and>
              rect_Size (Bounds output) = (width, height) \<and>
              (\<forall>p. point_In p (Bounds output) \<longleftrightarrow>
                     0 \<le> fst p \<and> fst p < width \<and> 0 \<le> snd p \<and> snd p < height) \<and>
              (width = 0 \<or> height = 0 \<longrightarrow>
                 output = blank (Rect 0 0 width height) \<and> (\<forall>p. \<not> point_In p (Bounds output)))))"
proof -
  have i: "0 \<le> buffer_length width height \<longleftrightarrow> width < 2 ^ 62 \<and> 4 * width * height < 2 ^ 63"
    using buffer_length_iff[of width height] assms by simp
  have s: "rect_Size (Rect 0 0 width height) = (width, height)"
    using assms by (simp add: rect_Size_def rect_Dx_Rect rect_Dy_Rect wrap64_id)
  have e: "width = 0 \<or> height = 0 \<Longrightarrow> 0 \<le> buffer_length width height \<Longrightarrow>
        resized img width height = blank (Rect 0 0 width height)"
    using resize_skip[of width height img] by (auto simp add: resize_eq)
  have g: "0 \<le> buffer_length width height \<Longrightarrow>
      (\<exists>output. resize img width height = Inr output \<and>
              rect_Size (Bounds output) = (width, height) \<and>
              (\<forall>p. point_In p (Bounds output) \<longleftrightarrow>
                     0 \<le> fst p \<and> fst p < width \<and> 0 \<le> snd p \<and> snd p < height) \<and>
              (width = 0 \<or> height = 0 \<longrightarrow>
                 output = blank (Rect 0 0 width height) \<and> (\<forall>p. \<not> point_In p (Bounds output))))"
    using assms s e by (auto simp add: resize_eq resized_Bounds point_In_Rect)
  from i g resize_huge[of width height img] show ?thesis by blast
qed

theorem resize_dimensions_witness:
  "0 \<le> buffer_length 0 3 \<and>
   (\<exists>output. resize (img_const 4 4 black) 0 3 = Inr output \<and> rect_Size (Bounds output) = (0, 3) \<and>
      output = blank (Rect 0 0 0 3) \<and> (\<forall>p. \<not> point_In p (Bounds output)))"
proof -
  have b: "0 \<le> buffer_length 0 3"
    by (simp add: buffer_length_def mul3NonNeg_def rect_Dx_Rect rect_Dy_Rect wrap64_def)
  from resize_dimensions[of 0 3 "img_const 4 4 black"] b show ?thesis by auto
qed

text \<open>
  The resize option \<open>4294967295x4294967295\<close> is accepted by \<open>parseResize\<close>; the pixel buffer
  of that grid does not fit \<open>int\<close>, and the sampler panics in \<open>NewNRGBA\<close>.
\<close>

theorem resize_huge_counterexample:
  "parseResize ''4294967295x4294967295'' (img_const 4 4 black) = Inr (4294967295, 4294967295) \<and>
   resize (img_const 4 4 black) 4294967295 4294967295 = Inl HugeDimensions \<and>
   asciify (default_opts\<lparr>Resize := ''4294967295x4294967295''\<rparr>) (img_const 4 4 black)
     = Inl HugeDimensions"
proof -
  have a: "parseResize ''4294967295x4294967295'' (img_const 4 4 black) = Inr (4294967295, 4294967295)"
    by code_simp
  have b: "resize (img_const 4 4 black) 4294967295 4294967295 = Inl HugeDimensions"
    by (simp add: resize_def NewNRGBA_def mul3NonNeg_def rect_Dx_def rect_Dy_def Rect_def wrap64_def)
  have c: "asciify (default_opts\<lparr>Resize := ''4294967295x4294967295''\<rparr>) (img_const 4 4 black)
     = Inl HugeDimensions" by code_simp
  from a b c show ?thesis by simp
qed

subsection \<open>C7\<close>

text \<open>
  Claim C7 fails on the code in its second half. With no resize option and no scale
  factor the target size is the source size; but the sampler at that size does not copy
  the source: for a source of \<open>color.NRGBA\<close> samples 49 wide, the target sample at
  \<open>(1, 0)\<close> is not the source sample at \<open>(1, 0)\<close> (it is the one at \<open>(0, 0)\<close>, by the
  rounding shown for C5).
\<close>

theorem identity_resize_not_identical:
  "target_dims default_opts (gradient 49 1) = Inr (49, 1) \<and>
   (\<exists>out. resize (gradient 49 1) 49 1 = Inr out \<and>
      image_At out 1 0 \<noteq> image_At (gradient 49 1) 1 0)"
proof -
  have "target_dims default_opts (gradient 49 1) = Inr (49, 1)"
    by (simp add: target_dims_def default_opts_def parseResize_def gradient_Size)
  then show ?thesis using resized_gradient_49 gradient_49_At
    by (simp add: resize_eq[OF buffer_length_49])
qed

subsection \<open>C8\<close>



subsection \<open>C9\<close>

text \<open>
  Claim C9. A non-empty resize option that has no \<open>x\<close>, or whose text before the first
  \<open>x\<close> or after it is not a non-empty string of decimal digits, makes \<open>parseResize\<close> fail;
  the error is the one of the target size, and the pipeline ends with an error and
  returns no text. Without \<open>x\<close> the error is \<open>InvalidResize\<close>.
\<close>

theorem malformed_resize_fails:
  assumes "value \<noteq> []"
    and "CHR ''x'' \<notin> set value \<or>
         (\<exists>w h. value = w @ CHR ''x'' # h \<and> CHR ''x'' \<notin> set w \<and> (\<not> numeric w \<or> \<not> numeric h))"
  shows "(\<exists>e. parseResize value img = Inl e \<and> target_dims (opts\<lparr>Resize := value\<rparr>) img = Inl e) \<and>
         (\<exists>e. asciify (opts\<lparr>Resize := value\<rparr>) img = Inl e) \<and>
         (CHR ''x'' \<notin> set value \<longrightarrow> parseResize value img = Inl (InvalidResize value))"
proof -
  have "\<exists>e. parseResize value img = Inl e"
    using assms parseResize_no_separator[of "value" img] parseResize_not_numeric[of _ _ img]
    by blast
  then obtain e where e: "parseResize value img = Inl e" ..
  then have t: "target_dims (opts\<lparr>Resize := value\<rparr>) img = Inl e" by (simp add: target_dims_error)
  from e t asciify_error[OF t] parseResize_no_separator[OF assms(1), of img] show ?thesis by blast
qed

theorem malformed_resize_fails_witness:
  "parseResize ''100'' (img_const 4 4 black) = Inl (InvalidResize ''100'') \<and>
   (\<exists>e. asciify (default_opts\<lparr>Resize := ''100''\<rparr>) (img_const 4 4 black) = Inl e)"
proof -
  have a: "''100'' \<noteq> []" by simp
  have b: "CHR ''x'' \<notin> set ''100'' \<or>
         (\<exists>w h. ''100'' = w @ CHR ''x'' # h \<and> CHR ''x'' \<notin> set w \<and> (\<not> numeric w \<or> \<not> numeric h))"
    by simp
  from malformed_resize_fails[OF a b, of "img_const 4 4 black" default_opts] show ?thesis by simp
qed

subsection \<open>C10\<close>

text \<open>
  Claim C10, as amended. For a negative scale factor, a resize option that \<open>parseResize\<close>
  accepts and a known character set, the scale branch is taken and both target
  dimensions are at most 0. The program then allocates a grid of \<open>|Wt|\<close> by \<open>|Ht|\<close>
  samples. When its pixel buffer fits \<open>int\<close> (\<open>- 2 ^ 62 < Wt\<close>, \<open>- 2 ^ 63 < Ht\<close> and
  \<open>4 * Wt * Ht < 2 ^ 63\<close>) the sampler sets no sample, the assembler appends nothing and
  the pipeline returns the empty text, and no error; otherwise the program panics in
  \<open>NewNRGBA\<close>.
\<close>

theorem negative_scale_empty_output:
  assumes "Scale opts < 0" "parseResize (Resize opts) img = Inr d"
    and "ChararacterSets (Charset opts) = Some charset"
    and "0 \<le> fst (rect_Size (Bounds img))" "0 \<le> snd (rect_Size (Bounds img))"
  shows "\<exists>ow oh. target_dims opts img = Inr (ow, oh) \<and> ow \<le> 0 \<and> oh \<le> 0 \<and>
           (0 \<le> buffer_length ow oh \<longleftrightarrow>
              - (2 ^ 62) < ow \<and> - (2 ^ 63) < oh \<and> 4 * ow * oh < 2 ^ 63) \<and>
           (0 \<le> buffer_length ow oh \<longrightarrow>
              resize img ow oh = Inr (blank (Rect 0 0 ow oh)) \<and>
              render charset (blank (Rect 0 0 ow oh)) ow oh = Inr [] \<and>
              asciify opts img = Inr []) \<and>
           (buffer_length ow oh < 0 \<longrightarrow> asciify opts img = Inl HugeDimensions)"
proof -
  define ow where "ow = f64_to_int (f64_mul (int_to_f64 (fst (rect_Size (Bounds img)))) (Scale opts))"
  define oh where "oh = f64_to_int (f64_mul (int_to_f64 (snd (rect_Size (Bounds img)))) (Scale opts))"
  have t: "target_dims opts img = Inr (ow, oh)"
    using assms(1,2) unfolding ow_def oh_def by (cases d) (simp add: target_dims_def Let_def)
  have w: "ow \<le> 0" unfolding ow_def using assms(4,1) by (rule scaled_nonpos)
  have h: "oh \<le> 0" unfolding oh_def using assms(5,1) by (rule scaled_nonpos)
  have rw: "- (2 ^ 63) \<le> ow" "ow < 2 ^ 63" unfolding ow_def using f64_to_int_range by simp_all
  have rh: "- (2 ^ 63) \<le> oh" "oh < 2 ^ 63" unfolding oh_def using f64_to_int_range by simp_all
  have aw: "\<bar>ow\<bar> = - ow" using w by simp
  have ah: "\<bar>oh\<bar> = - oh" using h by simp
  have i: "0 \<le> buffer_length ow oh \<longleftrightarrow> - (2 ^ 62) < ow \<and> - (2 ^ 63) < oh \<and> 4 * ow * oh < 2 ^ 63"
    using buffer_length_iff[OF rw rh] unfolding aw ah by (simp; linarith)
  have r: "0 \<le> buffer_length ow oh \<Longrightarrow> resize img ow oh = Inr (blank (Rect 0 0 ow oh))"
    using w by (intro resize_skip) simp_all
  have s: "render charset (blank (Rect 0 0 ow oh)) ow oh = Inr []" using h by (rule render_skip)
  have a: "0 \<le> buffer_length ow oh \<Longrightarrow> asciify opts img = Inr []"
    by (simp add: asciify_def assms(3) t r s)
  have b: "buffer_length ow oh < 0 \<Longrightarrow> asciify opts img = Inl HugeDimensions"
    by (simp add: asciify_def assms(3) t resize_huge)
  from t w h i r s a b show ?thesis by blast
qed

theorem negative_scale_empty_output_witness:
  "Scale (default_opts\<lparr>Scale := - 1\<rparr>) < 0 \<and>
   target_dims (default_opts\<lparr>Scale := - 1\<rparr>) (img_const 4 4 black) = Inr (- 4, - 4) \<and>
   0 \<le> buffer_length (- 4) (- 4) \<and>
   asciify (default_opts\<lparr>Scale := - 1\<rparr>) (img_const 4 4 black) = Inr []"
proof -
  let ?o = "default_opts\<lparr>Scale := - 1\<rparr>" and ?i = "img_const 4 4 black"
  have a: "Scale ?o < 0" by (simp add: default_opts_def)
  have b: "parseResize (Resize ?o) ?i = Inr (4, 4)" by code_simp
  have c: "ChararacterSets (Charset ?o) = Some ascii_ramp"
    by (simp add: default_opts_def ChararacterSets_def)
  have d: "0 \<le> fst (rect_Size (Bounds ?i))" "0 \<le> snd (rect_Size (Bounds ?i))"
    by (simp_all add: img_const_def rect_Size_def rect_Dx_Rect rect_Dy_Rect wrap64_def)
  have e: "target_dims ?o ?i = Inr (- 4, - 4)" by code_simp
  have f: "0 \<le> buffer_length (- 4) (- 4)"
    by (simp add: buffer_length_def mul3NonNeg_def rect_Dx_Rect rect_Dy_Rect wrap64_def)
  from negative_scale_empty_output[OF a b c d] a e f show ?thesis by auto
qed

text \<open>
  With the scale factor \<open>- 1e10\<close> on a source of 4 by 4 samples both target dimensions
  are \<open>- 40000000000\<close>; the rectangle with swapped corners is that many samples wide and
  high, its pixel buffer does not fit \<open>int\<close>, and the program panics in \<open>NewNRGBA\<close>.
\<close>

theorem negative_scale_huge_counterexample:
  "Scale (default_opts\<lparr>Scale := - 10000000000\<rparr>) < 0 \<and>
   target_dims (default_opts\<lparr>Scale := - 10000000000\<rparr>) (img_const 4 4 black)
     = Inr (- 40000000000, - 40000000000) \<and>
   asciify (default_opts\<lparr>Scale := - 10000000000\<rparr>) (img_const 4 4 black) = Inl HugeDimensions \<and>
   asciify (default_opts\<lparr>Scale := - 10000000000\<rparr>) (img_const 4 4 black) \<noteq> Inr []"
  by code_simp

end
